theory Spec2Isabelle
  imports Complex_Main "HOL-Library.Multiset"
begin

section \<open>Numbers\<close>

text \<open>
  Every numeric value of the program is a JavaScript \<open>number\<close>.  The development reads
  them as real numbers: \<open>+\<close>, \<open>-\<close>, \<open>*\<close>, \<open>/\<close> are exact, and the rounding errors of the
  binary representation are outside the model.  Divisors are pixel extents and grid units;
  a theorem whose proof needs one of them positive says so.  The position of a drag is the
  one value that the program passes on as it comes out of a division, so there the
  division by an extent of zero is written out (\<open>scaleToDomain\<close>).
\<close>

definition Math_round :: "real \<Rightarrow> real" where
  \<comment> \<open>\<open>Math.round\<close>: the nearest integer, a half rounded towards plus infinity.\<close>
  "Math_round v = of_int \<lfloor>v + 1 / 2\<rfloor>"

definition clamp :: "real \<Rightarrow> real \<Rightarrow> real \<Rightarrow> real" where
  \<comment> \<open>\<open>MusicMap.tsx\<close>, line 29.\<close>
  "clamp val lo hi = max lo (min val hi)"

section \<open>Notes (\<open>types.ts\<close>)\<close>

record MidiNote =
  pitch :: real
  startTime :: real
  duration :: real
  velocity :: "real option"

text \<open>
  An array of notes holds objects, and \<open>classifyNotes\<close> compares two of them with \<open>!==\<close>,
  which is identity of objects, not equality of their fields.  The argument of
  \<open>classifyNotes\<close> is the array that \<open>quantizeNotes\<close> has just built, one new object per
  element, so the identity of an element is its index in the argument array.  A
  \<open>noteObj\<close> is a note together with that index; two notes with equal fields at
  different indices are different objects.
\<close>

type_synonym noteObj = "nat \<times> MidiNote"

definition noteObjects :: "MidiNote list \<Rightarrow> noteObj list" where
  "noteObjects notes = zip [0..<length notes] notes"

section \<open>The note classifier (\<open>classifyNotes\<close>)\<close>

definition timeThreshold :: real where
  "timeThreshold = 2 / 100"

definition sortByStart :: "noteObj list \<Rightarrow> noteObj list" where
  \<comment> \<open>\<open>[...notes].sort((a, b) => a.startTime - b.startTime)\<close>; the sort is stable.\<close>
  "sortByStart objs = sort_key (\<lambda>n. startTime (snd n)) objs"

definition simultaneous :: "noteObj \<Rightarrow> noteObj \<Rightarrow> bool" where
  \<comment> \<open>The test of the inner loop, against the note that opened the group.\<close>
  "simultaneous currentNote n \<longleftrightarrow>
     startTime (snd n) - startTime (snd currentNote) < timeThreshold"

abbreviation higher :: "noteObj \<Rightarrow> noteObj \<Rightarrow> noteObj" where
  \<comment> \<open>\<open>(highest, note) => note.pitch > highest.pitch ? note : highest\<close>\<close>
  "higher highest note \<equiv> (if pitch (snd note) > pitch (snd highest) then note else highest)"

definition topNoteOf :: "noteObj list \<Rightarrow> noteObj" where
  \<comment> \<open>\<open>simultaneousNotes.reduce(..., simultaneousNotes[0])\<close> with the function above; it is
     only called on a group, which has a first element.\<close>
  "topNoteOf simultaneousNotes = foldl higher (hd simultaneousNotes) simultaneousNotes"

definition notTopNote :: "noteObj list \<Rightarrow> noteObj list" where
  \<comment> \<open>\<open>simultaneousNotes.filter(note => note !== topNote)\<close>\<close>
  "notTopNote simultaneousNotes =
     filter (\<lambda>note. fst note \<noteq> fst (topNoteOf simultaneousNotes)) simultaneousNotes"

text \<open>
  The outer loop.  The first argument is \<open>sortedNotes\<close> from index \<open>i\<close> on; the inner loop
  takes the longest prefix of what follows \<open>currentNote\<close> that passes the test, and \<open>j\<close> ends
  at the first note that fails it.  \<open>melody\<close> and \<open>harmony\<close> are the two arrays being filled.
\<close>

function classifyLoop ::
  "noteObj list \<Rightarrow> noteObj list \<Rightarrow> noteObj list \<Rightarrow> noteObj list \<times> noteObj list" where
  "classifyLoop [] melody harmony = (melody, harmony)"
| "classifyLoop (currentNote # rest) melody harmony =
     (if length (currentNote # takeWhile (simultaneous currentNote) rest) = 1
      then classifyLoop (dropWhile (simultaneous currentNote) rest)
             (melody @ [currentNote]) harmony
      else classifyLoop (dropWhile (simultaneous currentNote) rest)
             (melody @ [topNoteOf (currentNote # takeWhile (simultaneous currentNote) rest)])
             (harmony @ notTopNote (currentNote # takeWhile (simultaneous currentNote) rest)))"
  by pat_completeness auto
termination
  by (relation "measure (\<lambda>(sortedNotes, melody, harmony). length sortedNotes)")
     (auto simp: length_dropWhile_le le_imp_less_Suc)

definition classifyObjects :: "MidiNote list \<Rightarrow> noteObj list \<times> noteObj list" where
  "classifyObjects notes =
     (if notes = [] then ([], [])
      else classifyLoop (sortByStart (noteObjects notes)) [] [])"

definition classifyNotes :: "MidiNote list \<Rightarrow> MidiNote list \<times> MidiNote list" where
  \<comment> \<open>The two arrays of the result, read as the notes they hold.\<close>
  "classifyNotes notes =
     (map snd (fst (classifyObjects notes)), map snd (snd (classifyObjects notes)))"

text \<open>
  The successive values of \<open>simultaneousNotes\<close>, one per iteration of the outer loop:
  the simultaneity groups of a sorted array.
\<close>

function simultaneityGroups :: "noteObj list \<Rightarrow> noteObj list list" where
  "simultaneityGroups [] = []"
| "simultaneityGroups (currentNote # rest) =
     (currentNote # takeWhile (simultaneous currentNote) rest)
       # simultaneityGroups (dropWhile (simultaneous currentNote) rest)"
  by pat_completeness auto
termination
  by (relation "measure length") (auto simp: length_dropWhile_le le_imp_less_Suc)

definition groupsOf :: "MidiNote list \<Rightarrow> noteObj list list" where
  \<comment> \<open>The simultaneity groups that \<open>classifyNotes\<close> goes through on an input.\<close>
  "groupsOf notes = simultaneityGroups (sortByStart (noteObjects notes))"

definition spacedApart :: "MidiNote list \<Rightarrow> bool" where
  \<comment> \<open>Each note starts at least the threshold after the note before it.\<close>
  "spacedApart notes \<longleftrightarrow>
     successively (\<lambda>a b. timeThreshold \<le> startTime b - startTime a) notes"

section \<open>The quantizer (\<open>quantizeNotes\<close>)\<close>

datatype Quantization = Q16 | Q8T
  \<comment> \<open>\<open>type Quantization = '16' | '8T'\<close>\<close>

definition secondsPerGridUnit :: "real \<Rightarrow> Quantization \<Rightarrow> real" where
  "secondsPerGridUnit bpm quantizeGrid =
     (let secondsPerBeat = 60 / bpm
      in if quantizeGrid = Q8T then secondsPerBeat / 3 else secondsPerBeat / 4)"

definition quantizeNote :: "real \<Rightarrow> MidiNote \<Rightarrow> MidiNote" where
  \<comment> \<open>The function mapped over the notes; the spread \<open>...note\<close> keeps pitch and velocity.\<close>
  "quantizeNote gridUnit note =
     note\<lparr> startTime := Math_round (startTime note / gridUnit) * gridUnit,
           duration := max gridUnit (Math_round (duration note / gridUnit) * gridUnit) \<rparr>"

definition quantizeNotes :: "MidiNote list \<Rightarrow> real \<Rightarrow> Quantization \<Rightarrow> MidiNote list" where
  "quantizeNotes notes bpm quantizeGrid =
     map (quantizeNote (secondsPerGridUnit bpm quantizeGrid)) notes"

section \<open>Map positions\<close>

record Analysis =
  key :: string
  mode :: string
  rhythmicCharacter :: string
  intervalCharacter :: string
  harmonicComplexity :: string
  chordChanges :: real
  melodicRepetitions :: real
  melodicComplexity :: real
  harmonicRichness :: real
  melodicRichness :: real

record MapPosition =
  xCoord :: real  \<comment> \<open>the field \<open>x\<close>\<close>
  yCoord :: real  \<comment> \<open>the field \<open>y\<close>\<close>

definition appMapPosition :: "Analysis \<Rightarrow> MapPosition" where
  \<comment> \<open>The object literal built in \<open>analyzeAndCreateSong\<close> and again in \<open>generateVariation\<close>.\<close>
  "appMapPosition analysis =
     \<lparr> xCoord = (melodicComplexity analysis / 3) + (melodicRichness analysis * 2 / 3),
       yCoord = harmonicRichness analysis \<rparr>"

definition preprocessMapPosition :: "Analysis \<Rightarrow> MapPosition" where
  \<comment> \<open>The same position as \<open>scripts/preprocess.ts\<close> builds it for the songs of a corpus.\<close>
  "preprocessMapPosition analysis =
     (let xPos = (melodicComplexity analysis / 3) + (melodicRichness analysis * 2 / 3)
      in \<lparr> xCoord = max 0 (min 100 xPos), yCoord = harmonicRichness analysis \<rparr>)"

section \<open>The viewport (\<open>MusicMap.tsx\<close>)\<close>

record Domain =
  domX :: "real \<times> real"  \<comment> \<open>\<open>domain.x\<close>, the array \<open>[min, max]\<close>\<close>
  domY :: "real \<times> real"  \<comment> \<open>\<open>domain.y\<close>\<close>

record PanStart =
  panX :: real
  panY :: real
  domainX :: "real \<times> real"
  domainY :: "real \<times> real"

record Container =
  \<comment> \<open>What the handlers read from \<open>chartContainerRef.current\<close>.\<close>
  rectLeft :: real
  rectTop :: real
  rectWidth :: real
  rectHeight :: real
  clientWidth :: real
  clientHeight :: real

definition handlePanMove ::
  "bool \<Rightarrow> PanStart option \<Rightarrow> Container option \<Rightarrow> real \<Rightarrow> real \<Rightarrow> Domain \<Rightarrow> Domain" where
  \<comment> \<open>The domain after a mouse move at \<open>(clientX, clientY)\<close>; the early return leaves it.\<close>
  "handlePanMove isPanning panStart container clientX clientY domain =
     (case (panStart, container) of
        (Some start, Some c) \<Rightarrow>
          if \<not> isPanning then domain
          else
            let dx = clientX - panX start;
                dy = clientY - panY start;
                xRange = snd (domainX start) - fst (domainX start);
                yRange = snd (domainY start) - fst (domainY start);
                xPerPixel = xRange / clientWidth c;
                yPerPixel = yRange / clientHeight c;
                newXMin = clamp (fst (domainX start) - dx * xPerPixel) 0 (100 - xRange);
                newYMin = clamp (fst (domainY start) + dy * yPerPixel) 0 (100 - yRange)
            in \<lparr> domX = (newXMin, newXMin + xRange), domY = (newYMin, newYMin + yRange) \<rparr>
      | _ \<Rightarrow> domain)"

definition zoomAxis :: "real \<Rightarrow> real \<times> real \<Rightarrow> real \<times> real" where
  \<comment> \<open>What \<open>handleZoom\<close> does to one axis; it treats \<open>x\<close> and \<open>y\<close> alike, statement by statement.\<close>
  "zoomAxis factor prev =
     (let range = (snd prev - fst prev) * factor;
          center = (fst prev + snd prev) / 2;
          new0 = (center - range / 2, center + range / 2);
          new1 = (if fst new0 < 0 then (0, snd new0 - fst new0) else new0);
          new2 = (if snd new1 > 100 then (fst new1 - (snd new1 - 100), 100) else new1)
      in (clamp (fst new2) 0 100, clamp (snd new2) 0 100))"

definition handleZoom :: "real \<Rightarrow> Domain \<Rightarrow> Domain" where
  "handleZoom factor prev =
     \<lparr> domX = zoomAxis factor (domX prev), domY = zoomAxis factor (domY prev) \<rparr>"

definition handleResetZoom :: Domain where
  "handleResetZoom = \<lparr> domX = (0, 100), domY = (0, 100) \<rparr>"

definition width :: "real \<times> real \<Rightarrow> real" where
  "width d = snd d - fst d"

definition validAxis :: "real \<times> real \<Rightarrow> bool" where
  \<comment> \<open>An axis of a viewport: \<open>[min, max]\<close> inside \<open>[0, 100]\<close>.\<close>
  "validAxis d \<longleftrightarrow> 0 \<le> fst d \<and> fst d \<le> snd d \<and> snd d \<le> 100"

section \<open>Dragging the user's point (\<open>MusicMap.tsx\<close>)\<close>

text \<open>
  The handlers of a drag are closures.  \<open>handleMouseMove\<close> and \<open>handleMouseUp\<close> are created
  by the effect of lines 58 to 88 and see \<open>isDragging\<close> and \<open>transientPosition\<close> as they were
  at the render that ran the effect; \<open>setIsDragging\<close> and \<open>setTransientPosition\<close> only ask for
  a new value, which the handlers see after the component has rendered again and the
  effect has registered new ones.  \<open>didDragRef\<close> is a ref: it is written and read at once.
  The state of the gesture therefore holds every piece of component state twice, as the
  registered handlers see it and as it has been set since, next to the ref and to whether
  the \<open>mouseup\<close> listener, registered with \<open>once\<close>, is still there.

  What a handler only reads is the environment of an event: the props \<open>activeUserMelody\<close>
  (of which only \<open>mapPosition\<close> is read) and \<open>isDraggable\<close>, the chart container and the
  domain, each as the handler's closure holds it.
\<close>

datatype jsnum = Num real | NaN
  \<comment> \<open>A coordinate of the position of a drag: a number, or \<open>NaN\<close>.\<close>

record LivePosition =
  \<comment> \<open>A \<open>MapPosition\<close> object as \<open>transientPosition\<close> holds it.\<close>
  liveX :: jsnum  \<comment> \<open>the field \<open>x\<close>\<close>
  liveY :: jsnum  \<comment> \<open>the field \<open>y\<close>\<close>

definition livePosition :: "MapPosition \<Rightarrow> LivePosition" where
  "livePosition p = \<lparr> liveX = Num (xCoord p), liveY = Num (yCoord p) \<rparr>"

definition inSquare :: "LivePosition \<Rightarrow> bool" where
  "inSquare p \<longleftrightarrow>
     (case liveX p of Num a \<Rightarrow> 0 \<le> a \<and> a \<le> 100 | NaN \<Rightarrow> False)
     \<and> (case liveY p of Num b \<Rightarrow> 0 \<le> b \<and> b \<le> 100 | NaN \<Rightarrow> False)"

record DragState =
  isDragging :: bool  \<comment> \<open>as the registered handlers see it\<close>
  transientPosition :: "LivePosition option"  \<comment> \<open>as the registered handlers see it\<close>
  pendingIsDragging :: bool  \<comment> \<open>as set since the last render\<close>
  pendingTransientPosition :: "LivePosition option"  \<comment> \<open>as set since the last render\<close>
  didDrag :: bool  \<comment> \<open>\<open>didDragRef.current\<close>\<close>
  mouseUpListener :: bool  \<comment> \<open>the \<open>once\<close> listener for \<open>mouseup\<close> is registered\<close>

record Env =
  activeUserMelodyPosition :: "MapPosition option"
  isDraggable :: bool
  chartContainer :: "Container option"
  domain :: Domain

datatype Event =
    MouseDownOnUserMelody
  | MouseMove real real  \<comment> \<open>\<open>clientX\<close>, \<open>clientY\<close>\<close>
  | MouseUp
  | Render bool
      \<comment> \<open>the component renders and its effects run; the flag says that a dependency of the
         effect of lines 58 to 88 has changed that the state does not show (a new object
         of equal coordinates in \<open>transientPosition\<close>, \<open>onUserMelodyMove\<close>, \<open>domain\<close>)\<close>
  | GeneratingVariation bool  \<comment> \<open>the prop \<open>isGeneratingVariation\<close> has changed to this value\<close>

definition initialDragState :: DragState where
  "initialDragState =
     \<lparr> isDragging = False, transientPosition = None, pendingIsDragging = False,
       pendingTransientPosition = None, didDrag = False, mouseUpListener = False \<rparr>"

definition handleMouseDownOnUserMelody :: "Env \<Rightarrow> DragState \<Rightarrow> DragState" where
  "handleMouseDownOnUserMelody env s =
     (case activeUserMelodyPosition env of
        Some mapPosition \<Rightarrow>
          if isDraggable env
          then s\<lparr> didDrag := False, pendingIsDragging := True,
                 pendingTransientPosition := Some (livePosition mapPosition) \<rparr>
          else s
      | None \<Rightarrow> s)"

definition scaleToDomain :: "real \<Rightarrow> real \<Rightarrow> real \<Rightarrow> real \<Rightarrow> jsnum" where
  \<comment> \<open>\<open>clamp((offset / extent) * (hi - lo) + lo, 0, 100)\<close>.  On an extent of zero the
     quotient is \<open>NaN\<close> for an offset of zero and an infinity of the offset's sign
     otherwise; an infinity times a range of zero is \<open>NaN\<close>; \<open>clamp\<close> takes plus infinity
     to 100, minus infinity to 0 and \<open>NaN\<close> to \<open>NaN\<close>.\<close>
  "scaleToDomain offset extent lo hi =
     (if extent \<noteq> 0 then Num (clamp ((offset / extent) * (hi - lo) + lo) 0 100)
      else if offset = 0 \<or> hi - lo = 0 then NaN
      else if (0 < offset) = (0 < hi - lo) then Num 100
      else Num 0)"

definition dragPosition :: "Domain \<Rightarrow> Container \<Rightarrow> real \<Rightarrow> real \<Rightarrow> LivePosition" where
  \<comment> \<open>The position \<open>handleMouseMove\<close> asks for; the chart margins are 20 on every side.\<close>
  "dragPosition viewport rect clientX clientY =
     (let plotAreaX = rectLeft rect + 20;
          plotAreaY = rectTop rect + 20;
          plotAreaWidth = rectWidth rect - 20 - 20;
          plotAreaHeight = rectHeight rect - 20 - 20;
          xMin = fst (domX viewport); xMax = snd (domX viewport);
          yMin = fst (domY viewport); yMax = snd (domY viewport);
          mouseX = clientX - plotAreaX;
          mouseY = clientY - plotAreaY
      in \<lparr> liveX = scaleToDomain mouseX plotAreaWidth xMin xMax,
           liveY = scaleToDomain (plotAreaHeight - mouseY) plotAreaHeight yMin yMax \<rparr>)"

definition handleMouseMove :: "Env \<Rightarrow> real \<Rightarrow> real \<Rightarrow> DragState \<Rightarrow> DragState" where
  \<comment> \<open>The listener is registered exactly while the handlers see \<open>isDragging\<close>, which is
     also the handler's own test.\<close>
  "handleMouseMove env clientX clientY s =
     (if \<not> isDragging s then s
      else case chartContainer env of
             None \<Rightarrow> s
           | Some rect \<Rightarrow>
               s\<lparr> didDrag := True,
                  pendingTransientPosition :=
                    Some (dragPosition (domain env) rect clientX clientY) \<rparr>)"

definition handleMouseUp :: "DragState \<Rightarrow> DragState \<times> LivePosition list" where
  \<comment> \<open>The new state and the arguments of the calls of \<open>onUserMelodyMove\<close> (none or one).
     The handler passes on the \<open>transientPosition\<close> of its closure.\<close>
  "handleMouseUp s =
     (if \<not> mouseUpListener s then (s, [])
      else
        (s\<lparr> mouseUpListener := False, pendingIsDragging := False \<rparr>,
         if isDragging s \<and> didDrag s
         then (case transientPosition s of Some p \<Rightarrow> [p] | None \<Rightarrow> [])
         else []))"

definition render :: "bool \<Rightarrow> DragState \<Rightarrow> DragState" where
  \<comment> \<open>The handlers see what has been set.  When a dependency of the effect has changed,
     its cleanup removes the listeners and it registers them again if \<open>isDragging\<close>.\<close>
  "render otherDependency s =
     (let effectRuns =
            (otherDependency \<or> pendingIsDragging s \<noteq> isDragging s
             \<or> pendingTransientPosition s \<noteq> transientPosition s)
      in s\<lparr> isDragging := pendingIsDragging s,
            transientPosition := pendingTransientPosition s,
            mouseUpListener := (if effectRuns then pendingIsDragging s else mouseUpListener s) \<rparr>)"

definition step :: "Env \<Rightarrow> Event \<Rightarrow> DragState \<Rightarrow> DragState \<times> LivePosition list" where
  "step env ev s =
     (case ev of
        MouseDownOnUserMelody \<Rightarrow> (handleMouseDownOnUserMelody env s, [])
      | MouseMove clientX clientY \<Rightarrow> (handleMouseMove env clientX clientY s, [])
      | MouseUp \<Rightarrow> handleMouseUp s
      | Render otherDependency \<Rightarrow> (render otherDependency s, [])
      | GeneratingVariation b \<Rightarrow>
          (if \<not> b then s\<lparr> pendingTransientPosition := None \<rparr> else s, []))"

fun run :: "DragState \<Rightarrow> (Env \<times> Event) list \<Rightarrow> DragState \<times> LivePosition list" where
  \<comment> \<open>A sequence of events, each with its environment: the final state and every
     position passed to \<open>onUserMelodyMove\<close>, in order.\<close>
  "run s [] = (s, [])"
| "run s ((env, ev) # rest) =
     (case step env ev s of
        (s', out) \<Rightarrow> (case run s' rest of (s'', outs) \<Rightarrow> (s'', out @ outs)))"

definition emitted :: "DragState \<Rightarrow> (Env \<times> Event) list \<Rightarrow> LivePosition list" where
  "emitted s evs = snd (run s evs)"

definition handleCellClick :: "DragState \<Rightarrow> string \<Rightarrow> string list" where
  \<comment> \<open>The \<open>onClick\<close> of a point: the arguments of the calls of \<open>onNodeClick\<close> (none or one).\<close>
  "handleCellClick s entryId = (if didDrag s then [] else [entryId])"

text \<open>
  How \<open>App\<close> fills the two props: the user's melody is handed to the map in the modes
  \<open>individual\<close> and \<open>synthesis\<close> only, and there the point is draggable.
\<close>

datatype MapMode = Individual | Global | Synthesis

record Song =
  songId :: string  \<comment> \<open>the field \<open>id\<close>\<close>
  songName :: string  \<comment> \<open>the field \<open>name\<close>\<close>
  songMelody :: "MidiNote list"  \<comment> \<open>the field \<open>melody\<close>\<close>
  songHarmony :: "MidiNote list"  \<comment> \<open>the field \<open>harmony\<close>\<close>
  songAnalysis :: "Analysis option"  \<comment> \<open>the field \<open>analysis\<close>\<close>
  mapPosition :: "MapPosition option"
  globalMapPosition :: "MapPosition option"

definition userMelodyForMap :: "MapMode \<Rightarrow> Song option \<Rightarrow> Song option" where
  "userMelodyForMap mapMode userMelody =
     (case mapMode of
        Individual \<Rightarrow> userMelody
      | Global \<Rightarrow> None
      | Synthesis \<Rightarrow>
          (case userMelody of
             None \<Rightarrow> None
           | Some song \<Rightarrow>
               (case globalMapPosition song of
                  None \<Rightarrow> None
                | Some g \<Rightarrow> Some (song\<lparr> mapPosition := Some g \<rparr>))))"

definition appEnv :: "MapMode \<Rightarrow> Song option \<Rightarrow> Container option \<Rightarrow> Domain \<Rightarrow> Env" where
  "appEnv mapMode userMelody container viewport =
     \<lparr> activeUserMelodyPosition =
         (case userMelodyForMap mapMode userMelody of None \<Rightarrow> None | Some song \<Rightarrow> mapPosition song),
       isDraggable = ((mapMode = Synthesis \<or> mapMode = Individual) \<and> userMelody \<noteq> None),
       chartContainer = container,
       domain = viewport \<rparr>"

section \<open>Sample values\<close>

definition sampleNote :: "real \<Rightarrow> real \<Rightarrow> real \<Rightarrow> MidiNote" where
  "sampleNote p start dur = \<lparr> pitch = p, startTime = start, duration = dur, velocity = None \<rparr>"

definition sampleAnalysis :: "real \<Rightarrow> real \<Rightarrow> real \<Rightarrow> Analysis" where
  "sampleAnalysis complexity richness harmonic =
     \<lparr> key = ''C'', mode = ''major'', rhythmicCharacter = ''simple'',
       intervalCharacter = ''stepwise'', harmonicComplexity = ''simple triads'',
       chordChanges = 2, melodicRepetitions = 1, melodicComplexity = complexity,
       harmonicRichness = harmonic, melodicRichness = richness \<rparr>"

definition sampleContainer :: Container where
  \<comment> \<open>A chart container of 240 by 240 pixels at the origin: a plot area of 200 by 200.\<close>
  "sampleContainer =
     \<lparr> rectLeft = 0, rectTop = 0, rectWidth = 240, rectHeight = 240,
       clientWidth = 240, clientHeight = 240 \<rparr>"

definition sampleSong :: Song where
  \<comment> \<open>The user's melody after an analysis with a harmonic richness of 120: the position
     that \<open>analyzeAndCreateSong\<close> stores is (40, 120).\<close>
  "sampleSong =
     \<lparr> songId = ''user-melody'', songName = ''Your Melody'',
       songMelody = [sampleNote 60 0 1], songHarmony = [],
       songAnalysis = Some (sampleAnalysis 60 30 120),
       mapPosition = Some (appMapPosition (sampleAnalysis 60 30 120)),
       globalMapPosition = None \<rparr>"

definition sampleEnv :: Env where
  \<comment> \<open>What \<open>App\<close> hands to the map in the mode \<open>individual\<close>, on the full domain.\<close>
  "sampleEnv = appEnv Individual (Some sampleSong) (Some sampleContainer) handleResetZoom"

definition samplePanStart :: PanStart where
  "samplePanStart = \<lparr> panX = 100, panY = 100, domainX = (0, 20), domainY = (40, 60) \<rparr>"

definition chordNotes :: "MidiNote list" where
  "chordNotes = [sampleNote 60 0 1, sampleNote 64 (1 / 100) 1, sampleNote 67 (15 / 1000) 1]"

definition chainNotes :: "MidiNote list" where
  \<comment> \<open>Three notes, each 15 ms after the one before.\<close>
  "chainNotes = [sampleNote 60 0 1, sampleNote 62 (15 / 1000) 1, sampleNote 64 (30 / 1000) 1]"

section \<open>Note classifier\<close>

subsection \<open>The loop in terms of the groups\<close>

lemma topNoteOf_single: "topNoteOf [n] = n"
  by (simp add: topNoteOf_def)

lemma notTopNote_single: "notTopNote [n] = []"
  by (simp add: notTopNote_def topNoteOf_single)

lemma classifyLoop_groups:
  "classifyLoop sortedNotes melody harmony =
     (melody @ map topNoteOf (simultaneityGroups sortedNotes),
      harmony @ concat (map notTopNote (simultaneityGroups sortedNotes)))"
proof (induction sortedNotes melody harmony rule: classifyLoop.induct)
  case (1 melody harmony)
  then show ?case by simp
next
  case (2 currentNote rest melody harmony)
  show ?case
  proof (cases "takeWhile (simultaneous currentNote) rest = []")
    case True
    then show ?thesis using 2(1) by (simp add: topNoteOf_single notTopNote_single)
  next
    case False
    then show ?thesis using 2(2) by simp
  qed
qed

lemma concat_simultaneityGroups: "concat (simultaneityGroups sortedNotes) = sortedNotes"
  by (induction sortedNotes rule: simultaneityGroups.induct) simp_all

lemma simultaneityGroups_nonempty: "g \<in> set (simultaneityGroups sortedNotes) \<Longrightarrow> g \<noteq> []"
  by (induction sortedNotes rule: simultaneityGroups.induct) auto

subsection \<open>The reduction\<close>

lemma foldl_higher_first_max:
  "\<exists>k < length (a # ns).
      (a # ns) ! k = foldl higher a ns
      \<and> (\<forall>j < length (a # ns). pitch (snd ((a # ns) ! j)) \<le> pitch (snd ((a # ns) ! k)))
      \<and> (\<forall>j < k. pitch (snd ((a # ns) ! j)) < pitch (snd ((a # ns) ! k)))"
proof (induction ns rule: rev_induct)
  case Nil
  then show ?case by simp
next
  case (snoc n ns)
  then obtain k where k: "k < length (a # ns)" "(a # ns) ! k = foldl higher a ns"
    and le: "\<forall>j < length (a # ns). pitch (snd ((a # ns) ! j)) \<le> pitch (snd ((a # ns) ! k))"
    and lt: "\<forall>j < k. pitch (snd ((a # ns) ! j)) < pitch (snd ((a # ns) ! k))"
    by blast
  let ?l = "a # ns @ [n]"
  have app: "?l = (a # ns) @ [n]" by simp
  have old: "?l ! j = (a # ns) ! j" if "j < length (a # ns)" for j
    using that unfolding app by (simp only: nth_append if_True)
  have new: "?l ! length (a # ns) = n"
    unfolding app by (simp only: nth_append_length)
  show ?case
  proof (cases "pitch (snd n) > pitch (snd (foldl higher a ns))")
    case True
    have f: "foldl higher a (ns @ [n]) = n" using True by simp
    have "length (a # ns) < length ?l" by simp
    moreover have "?l ! length (a # ns) = foldl higher a (ns @ [n])" using new f by simp
    moreover have "\<forall>j < length ?l. pitch (snd (?l ! j)) \<le> pitch (snd (?l ! length (a # ns)))"
    proof (intro allI impI)
      fix j assume "j < length ?l"
      then consider "j < length (a # ns)" | "j = length (a # ns)" by fastforce
      then show "pitch (snd (?l ! j)) \<le> pitch (snd (?l ! length (a # ns)))"
      proof cases
        case 1
        have "pitch (snd ((a # ns) ! j)) \<le> pitch (snd (foldl higher a ns))"
          using le 1 k(2) by simp
        then show ?thesis using old [OF 1] new True by simp
      next
        case 2
        then show ?thesis by simp
      qed
    qed
    moreover have "\<forall>j < length (a # ns). pitch (snd (?l ! j)) < pitch (snd (?l ! length (a # ns)))"
    proof (intro allI impI)
      fix j assume j: "j < length (a # ns)"
      have "pitch (snd ((a # ns) ! j)) \<le> pitch (snd (foldl higher a ns))" using le j k(2) by simp
      then show "pitch (snd (?l ! j)) < pitch (snd (?l ! length (a # ns)))"
        using old [OF j] new True by simp
    qed
    ultimately show ?thesis by blast
  next
    case False
    have f: "foldl higher a (ns @ [n]) = foldl higher a ns" using False by simp
    have "k < length ?l" using k by simp
    moreover have "?l ! k = foldl higher a (ns @ [n])" using old [OF k(1)] k(2) f by simp
    moreover have "\<forall>j < length ?l. pitch (snd (?l ! j)) \<le> pitch (snd (?l ! k))"
    proof (intro allI impI)
      fix j assume "j < length ?l"
      then consider "j < length (a # ns)" | "j = length (a # ns)" by fastforce
      then show "pitch (snd (?l ! j)) \<le> pitch (snd (?l ! k))"
      proof cases
        case 1
        then show ?thesis using old [OF 1] old [OF k(1)] le by simp
      next
        case 2
        then show ?thesis using new old [OF k(1)] k(2) False by simp
      qed
    qed
    moreover have "\<forall>j < k. pitch (snd (?l ! j)) < pitch (snd (?l ! k))"
    proof (intro allI impI)
      fix j assume j: "j < k"
      then have "j < length (a # ns)" using k by simp
      from old [OF this] old [OF k(1)] lt j show "pitch (snd (?l ! j)) < pitch (snd (?l ! k))" by simp
    qed
    ultimately show ?thesis by blast
  qed
qed

lemma topNoteOf_Cons: "topNoteOf (a # ns) = foldl higher a ns"
  by (simp add: topNoteOf_def)

lemma topNoteOf_first_max:
  assumes "g \<noteq> []"
  shows "\<exists>k < length g. g ! k = topNoteOf g
      \<and> (\<forall>j < length g. pitch (snd (g ! j)) \<le> pitch (snd (topNoteOf g)))
      \<and> (\<forall>j < k. pitch (snd (g ! j)) < pitch (snd (topNoteOf g)))"
proof -
  from assms obtain a ns where g: "g = a # ns" by (cases g) auto
  from foldl_higher_first_max [of a ns]
  obtain k where "k < length (a # ns)" "(a # ns) ! k = foldl higher a ns"
    "\<forall>j < length (a # ns). pitch (snd ((a # ns) ! j)) \<le> pitch (snd ((a # ns) ! k))"
    "\<forall>j < k. pitch (snd ((a # ns) ! j)) < pitch (snd ((a # ns) ! k))"
    by blast
  then show ?thesis
    unfolding g topNoteOf_Cons by (intro exI [of _ k]) simp
qed

lemma map_fst_noteObjects: "map fst (noteObjects notes) = [0..<length notes]"
  by (simp add: noteObjects_def)

lemma map_snd_noteObjects: "map snd (noteObjects notes) = notes"
  by (simp add: noteObjects_def)

lemma distinct_noteObjects: "distinct (map fst (noteObjects notes))"
  by (simp add: map_fst_noteObjects)

lemma mset_sortByStart: "mset (sortByStart objs) = mset objs"
  by (simp add: sortByStart_def)

lemma distinct_sortByStart: "distinct (map fst (sortByStart (noteObjects notes)))"
proof -
  have "mset (map fst (sortByStart (noteObjects notes))) = mset (map fst (noteObjects notes))"
    by (simp add: mset_sortByStart)
  from mset_eq_imp_distinct_iff [OF this] show ?thesis
    by (simp add: distinct_noteObjects)
qed

lemma distinct_map_takeWhile: "distinct (map f xs) \<Longrightarrow> distinct (map f (takeWhile P xs))"
  by (metis takeWhile_eq_take take_map distinct_take)

lemma distinct_map_dropWhile: "distinct (map f xs) \<Longrightarrow> distinct (map f (dropWhile P xs))"
  by (metis dropWhile_eq_drop drop_map distinct_drop)

lemma simultaneityGroups_distinct:
  "distinct (map fst sortedNotes) \<Longrightarrow> g \<in> set (simultaneityGroups sortedNotes) \<Longrightarrow>
     distinct (map fst g)"
proof (induction sortedNotes rule: simultaneityGroups.induct)
  case 1
  then show ?case by simp
next
  case (2 currentNote rest)
  from 2(3) consider "g = currentNote # takeWhile (simultaneous currentNote) rest"
    | "g \<in> set (simultaneityGroups (dropWhile (simultaneous currentNote) rest))" by auto
  then show ?case
  proof cases
    case 1
    have "fst currentNote \<notin> fst ` set (takeWhile (simultaneous currentNote) rest)"
      using 2(2) by (auto dest: set_takeWhileD)
    then show ?thesis using 1 2(2) by (simp add: distinct_map_takeWhile)
  next
    case 2
    have "distinct (map fst (dropWhile (simultaneous currentNote) rest))"
      using "2.prems"(1) by (simp add: distinct_map_dropWhile)
    from "2.IH" [OF this 2] show ?thesis .
  qed
qed

lemma topNoteOf_member: "g \<noteq> [] \<Longrightarrow> topNoteOf g \<in> set g"
  using topNoteOf_first_max [of g] by (metis nth_mem)

lemma group_partition:
  "distinct (map fst g) \<Longrightarrow> t \<in> set g \<Longrightarrow>
     mset (filter (\<lambda>n. fst n \<noteq> fst t) g) + {#t#} = mset g"
proof (induction g)
  case Nil
  then show ?case by simp
next
  case (Cons a g)
  show ?case
  proof (cases "a = t")
    case True
    have "\<forall>n \<in> set g. fst n \<noteq> fst t" using Cons.prems(1) True by (auto simp add: image_iff)
    then have "filter (\<lambda>n. fst n \<noteq> fst t) g = g" by (simp add: filter_id_conv)
    then show ?thesis using True by simp
  next
    case False
    then have t: "t \<in> set g" using Cons.prems(2) by simp
    then have "fst a \<noteq> fst t" using Cons.prems(1) by auto
    then show ?thesis using Cons.IH [OF _ t] Cons.prems(1) by simp
  qed
qed

lemma group_others:
  assumes "distinct (map fst g)" "k < length g"
  shows "filter (\<lambda>n. fst n \<noteq> fst (g ! k)) g = take k g @ drop (Suc k) g"
proof -
  have g: "g = take k g @ g ! k # drop (Suc k) g" using assms(2) by (rule id_take_nth_drop)
  have d: "distinct (map fst (take k g @ g ! k # drop (Suc k) g))" using assms(1) g by simp
  have a: "\<forall>n \<in> set (take k g). fst n \<noteq> fst (g ! k)" using d by (auto simp add: image_iff)
  have b: "\<forall>n \<in> set (drop (Suc k) g). fst n \<noteq> fst (g ! k)" using d by (auto simp add: image_iff)
  have "filter (\<lambda>n. fst n \<noteq> fst (g ! k)) (take k g @ g ! k # drop (Suc k) g)
          = take k g @ drop (Suc k) g"
    using a b by (simp add: filter_id_conv)
  then show ?thesis using g by simp
qed

lemma groups_partition:
  "\<forall>g \<in> set gs. g \<noteq> [] \<and> distinct (map fst g) \<Longrightarrow>
     mset (map topNoteOf gs) + mset (concat (map notTopNote gs)) = mset (concat gs)"
proof (induction gs)
  case Nil
  then show ?case by simp
next
  case (Cons g gs)
  then have g: "g \<noteq> []" "distinct (map fst g)" by simp_all
  have "mset (notTopNote g) + {#topNoteOf g#} = mset g"
    unfolding notTopNote_def using g(2) topNoteOf_member [OF g(1)] by (rule group_partition)
  then show ?case using Cons by (simp add: ac_simps)
qed

lemma classifyObjects_groups:
  "classifyObjects notes =
     (map topNoteOf (groupsOf notes), concat (map notTopNote (groupsOf notes)))"
proof (cases "notes = []")
  case True
  then show ?thesis
    by (simp add: classifyObjects_def groupsOf_def noteObjects_def sortByStart_def)
next
  case False
  then show ?thesis
    by (simp add: classifyObjects_def groupsOf_def classifyLoop_groups)
qed

lemma classifyObjects_mset:
  "mset (fst (classifyObjects notes)) + mset (snd (classifyObjects notes)) =
     mset (noteObjects notes)"
proof -
  have "\<forall>g \<in> set (groupsOf notes). g \<noteq> [] \<and> distinct (map fst g)"
    unfolding groupsOf_def
    using simultaneityGroups_nonempty simultaneityGroups_distinct [OF distinct_sortByStart]
    by blast
  from groups_partition [OF this] show ?thesis
    by (simp add: classifyObjects_groups groupsOf_def concat_simultaneityGroups mset_sortByStart)
qed

text \<open>
  C2.  \<open>classifyNotes\<close> is a function of its argument, and it splits the argument in two:
  the lengths of melody and harmony add up to the length of the input, melody and harmony
  together hold the notes of the input, each as often as the input does, and every object
  of the input array is in exactly one place of the two results.
\<close>

theorem classifyNotes_partition:
  "length (fst (classifyNotes notes)) + length (snd (classifyNotes notes)) = length notes
   \<and> mset (fst (classifyNotes notes)) + mset (snd (classifyNotes notes)) = mset notes
   \<and> mset (fst (classifyObjects notes)) + mset (snd (classifyObjects notes)) =
       mset (noteObjects notes)
   \<and> distinct (map fst (fst (classifyObjects notes) @ snd (classifyObjects notes)))"
proof -
  let ?m = "fst (classifyObjects notes)" and ?h = "snd (classifyObjects notes)"
  have p: "mset (?m @ ?h) = mset (noteObjects notes)"
    using classifyObjects_mset by simp
  have "size (mset (?m @ ?h)) = size (mset (noteObjects notes))" using p by simp
  then have len: "length ?m + length ?h = length notes"
    by (simp add: noteObjects_def)
  have "mset (map snd (?m @ ?h)) = mset (map snd (noteObjects notes))"
    using p by (metis mset_map)
  then have vals: "mset (map snd ?m) + mset (map snd ?h) = mset notes"
    by (simp add: map_snd_noteObjects)
  have "mset (map fst (?m @ ?h)) = mset (map fst (noteObjects notes))"
    using p by (metis mset_map)
  from mset_eq_imp_distinct_iff [OF this]
  have d: "distinct (map fst (?m @ ?h))" by (simp add: distinct_noteObjects)
  show ?thesis using len vals classifyObjects_mset d
    by (simp add: classifyNotes_def)
qed

lemma groupsOf_distinct: "g \<in> set (groupsOf notes) \<Longrightarrow> distinct (map fst g)"
  unfolding groupsOf_def by (rule simultaneityGroups_distinct [OF distinct_sortByStart])

lemma groupsOf_nonempty: "g \<in> set (groupsOf notes) \<Longrightarrow> g \<noteq> []"
  unfolding groupsOf_def by (rule simultaneityGroups_nonempty)

lemma group_top:
  assumes "g \<noteq> []" "distinct (map fst g)"
  shows "\<exists>k < length g.
           topNoteOf g = g ! k
         \<and> (\<forall>j < length g. pitch (snd (g ! j)) \<le> pitch (snd (g ! k)))
         \<and> (\<forall>j < k. pitch (snd (g ! j)) < pitch (snd (g ! k)))
         \<and> notTopNote g = take k g @ drop (Suc k) g"
proof -
  from topNoteOf_first_max [OF assms(1)] obtain k where k: "k < length g" "g ! k = topNoteOf g"
    and le: "\<forall>j < length g. pitch (snd (g ! j)) \<le> pitch (snd (topNoteOf g))"
    and lt: "\<forall>j < k. pitch (snd (g ! j)) < pitch (snd (topNoteOf g))"
    by blast
  have "notTopNote g = take k g @ drop (Suc k) g"
    unfolding notTopNote_def k(2) [symmetric] using assms(2) k(1) by (rule group_others)
  then show ?thesis using k le lt by (intro exI [of _ k]) simp
qed

text \<open>
  C3.  The melody is the list of the groups' top notes and the harmony the list of all the
  others, group after group.  The top note of a group is a member of the highest pitch, and
  the first of these: every member before it is strictly lower.  The others are the members
  before and after it, in order.  In a group whose members all have one pitch the first
  member is the melody note and the rest is harmony.  The notes of pitch 60, 64 and 67
  that start at 0, 0.01 and 0.015 s give the melody \<open>[67]\<close> and the harmony \<open>[60, 64]\<close>.
\<close>

theorem classifyNotes_top_note:
  "classifyObjects notes =
     (map topNoteOf (groupsOf notes), concat (map notTopNote (groupsOf notes)))
   \<and> (\<forall>g \<in> set (groupsOf notes). \<exists>k < length g.
          topNoteOf g = g ! k
        \<and> (\<forall>j < length g. pitch (snd (g ! j)) \<le> pitch (snd (g ! k)))
        \<and> (\<forall>j < k. pitch (snd (g ! j)) < pitch (snd (g ! k)))
        \<and> notTopNote g = take k g @ drop (Suc k) g)
   \<and> (\<forall>g \<in> set (groupsOf notes).
          (\<forall>n \<in> set g. pitch (snd n) = pitch (snd (hd g))) \<longrightarrow>
          topNoteOf g = hd g \<and> notTopNote g = tl g)
   \<and> classifyNotes chordNotes =
       ([sampleNote 67 (15 / 1000) 1], [sampleNote 60 0 1, sampleNote 64 (1 / 100) 1])"
proof (intro conjI ballI impI)
  show "classifyObjects notes =
     (map topNoteOf (groupsOf notes), concat (map notTopNote (groupsOf notes)))"
    by (rule classifyObjects_groups)
next
  fix g assume g: "g \<in> set (groupsOf notes)"
  show "\<exists>k < length g.
          topNoteOf g = g ! k
        \<and> (\<forall>j < length g. pitch (snd (g ! j)) \<le> pitch (snd (g ! k)))
        \<and> (\<forall>j < k. pitch (snd (g ! j)) < pitch (snd (g ! k)))
        \<and> notTopNote g = take k g @ drop (Suc k) g"
    by (rule group_top [OF groupsOf_nonempty [OF g] groupsOf_distinct [OF g]])
next
  fix g assume g: "g \<in> set (groupsOf notes)"
    and same: "\<forall>n \<in> set g. pitch (snd n) = pitch (snd (hd g))"
  have ne: "g \<noteq> []" using g by (rule groupsOf_nonempty)
  from group_top [OF ne groupsOf_distinct [OF g]] obtain k where k: "k < length g"
    "topNoteOf g = g ! k" "\<forall>j < k. pitch (snd (g ! j)) < pitch (snd (g ! k))"
    "notTopNote g = take k g @ drop (Suc k) g"
    by blast
  have "k = 0"
  proof (rule ccontr)
    assume "k \<noteq> 0"
    then have "pitch (snd (g ! 0)) < pitch (snd (g ! k))" using k(3) by simp
    moreover have "g ! 0 \<in> set g" using ne by (intro nth_mem) simp
    then have "pitch (snd (g ! 0)) = pitch (snd (hd g))" by (rule same [rule_format])
    moreover have "g ! k \<in> set g" using k(1) by (rule nth_mem)
    then have "pitch (snd (g ! k)) = pitch (snd (hd g))" by (rule same [rule_format])
    ultimately show False by linarith
  qed
  then show "topNoteOf g = hd g" using k(2) ne by (simp add: hd_conv_nth)
  show "notTopNote g = tl g" using k(4) \<open>k = 0\<close> by (simp add: drop_Suc)
next
  show "classifyNotes chordNotes =
       ([sampleNote 67 (15 / 1000) 1], [sampleNote 60 0 1, sampleNote 64 (1 / 100) 1])"
    by code_simp
qed

theorem classifyNotes_top_note_witness:
  "groupsOf chordNotes =
     [[(0, sampleNote 60 0 1), (1, sampleNote 64 (1 / 100) 1), (2, sampleNote 67 (15 / 1000) 1)]]
   \<and> classifyObjects chordNotes =
       ([(2, sampleNote 67 (15 / 1000) 1)], [(0, sampleNote 60 0 1), (1, sampleNote 64 (1 / 100) 1)])"
proof -
  have g: "groupsOf chordNotes =
     [[(0, sampleNote 60 0 1), (1, sampleNote 64 (1 / 100) 1), (2, sampleNote 67 (15 / 1000) 1)]]"
    by code_simp
  have t: "map topNoteOf (groupsOf chordNotes) = [(2, sampleNote 67 (15 / 1000) 1)]"
    by code_simp
  have n: "concat (map notTopNote (groupsOf chordNotes)) =
       [(0, sampleNote 60 0 1), (1, sampleNote 64 (1 / 100) 1)]"
    by code_simp
  from classifyNotes_top_note [of chordNotes]
  have "classifyObjects chordNotes =
     (map topNoteOf (groupsOf chordNotes), concat (map notTopNote (groupsOf chordNotes)))"
    by (rule conjunct1)
  then show ?thesis using g unfolding t n by (rule conjI [rotated])
qed

lemma timeThreshold_pos: "0 < timeThreshold"
  by (simp add: timeThreshold_def)

lemma sorted_sortByStart:
  "sorted_wrt (\<lambda>a b. startTime (snd a) \<le> startTime (snd b)) (sortByStart objs)"
proof -
  have "sorted (map (\<lambda>n. startTime (snd n)) (sortByStart objs))"
    unfolding sortByStart_def by (rule sorted_sort_key)
  then show ?thesis by (simp add: sorted_map)
qed

lemma simultaneityGroups_within:
  assumes "sorted_wrt (\<lambda>a b. startTime (snd a) \<le> startTime (snd b)) sortedNotes"
    and "g \<in> set (simultaneityGroups sortedNotes)" and "n \<in> set g"
  shows "0 \<le> startTime (snd n) - startTime (snd (hd g))
       \<and> startTime (snd n) - startTime (snd (hd g)) < timeThreshold"
  using assms
proof (induction sortedNotes rule: simultaneityGroups.induct)
  case 1
  then show ?case by simp
next
  case (2 currentNote rest)
  from 2(3) consider "g = currentNote # takeWhile (simultaneous currentNote) rest"
    | "g \<in> set (simultaneityGroups (dropWhile (simultaneous currentNote) rest))" by auto
  then show ?case
  proof cases
    case 1
    show ?thesis
    proof (cases "n = currentNote")
      case True
      then show ?thesis using 1 timeThreshold_pos by simp
    next
      case False
      then have n: "n \<in> set (takeWhile (simultaneous currentNote) rest)" using 1 2(4) by simp
      then have "simultaneous currentNote n" by (rule set_takeWhileD [THEN conjunct2])
      moreover have "n \<in> set rest" using n by (rule set_takeWhileD [THEN conjunct1])
      then have "startTime (snd currentNote) \<le> startTime (snd n)" using 2(2) by simp
      ultimately show ?thesis using 1 by (simp add: simultaneous_def)
    qed
  next
    case 2
    have "sorted_wrt (\<lambda>a b. startTime (snd a) \<le> startTime (snd b))
            (dropWhile (simultaneous currentNote) rest)"
      using "2.prems"(1) by simp
    from "2.IH" [OF this 2 "2.prems"(3)] show ?thesis .
  qed
qed

lemma hd_hd_simultaneityGroups:
  "sortedNotes \<noteq> [] \<Longrightarrow> hd (hd (simultaneityGroups sortedNotes)) = hd sortedNotes"
  by (cases sortedNotes) simp_all

lemma simultaneityGroups_maximal:
  "successively (\<lambda>g g'. \<not> simultaneous (hd g) (hd g')) (simultaneityGroups sortedNotes)"
proof (induction sortedNotes rule: simultaneityGroups.induct)
  case 1
  then show ?case by simp
next
  case (2 currentNote rest)
  let ?rest' = "dropWhile (simultaneous currentNote) rest"
  have "simultaneityGroups ?rest' = [] \<or>
        \<not> simultaneous currentNote (hd (hd (simultaneityGroups ?rest')))"
  proof (cases "?rest' = []")
    case True
    then have "simultaneityGroups ?rest' = []" by (simp only: simultaneityGroups.simps)
    then show ?thesis by (rule disjI1)
  next
    case False
    then have "\<not> simultaneous currentNote (hd ?rest')" by (rule hd_dropWhile)
    then show ?thesis using False by (simp add: hd_hd_simultaneityGroups)
  qed
  then show ?case using 2 by (simp add: successively_Cons)
qed

lemma simultaneityGroups_spaced:
  "successively (\<lambda>a b. timeThreshold \<le> startTime (snd b) - startTime (snd a)) objs \<Longrightarrow>
     simultaneityGroups objs = map (\<lambda>n. [n]) objs"
proof (induction objs rule: induct_list012)
  case 1
  then show ?case by simp
next
  case (2 a)
  then show ?case by simp
next
  case (3 a b objs)
  then have "\<not> simultaneous a b" by (simp add: simultaneous_def)
  then show ?case using 3 by simp
qed

lemma spacedApart_sorted: "spacedApart notes \<Longrightarrow> sorted (map startTime notes)"
proof -
  assume "spacedApart notes"
  then have h: "successively (\<lambda>a b. timeThreshold \<le> startTime b - startTime a) notes"
    by (simp add: spacedApart_def)
  have "successively (\<lambda>a b. startTime a \<le> startTime b) notes"
  proof (rule successively_mono [OF h])
    fix a b :: MidiNote
    assume "timeThreshold \<le> startTime b - startTime a"
    then show "startTime a \<le> startTime b" using timeThreshold_pos by linarith
  qed
  moreover have "transp (\<lambda>a b. startTime a \<le> startTime (b::MidiNote))"
    by (rule transpI) simp
  ultimately have "sorted_wrt (\<lambda>a b. startTime a \<le> startTime b) notes"
    by (simp add: successively_conv_sorted_wrt)
  then show ?thesis by (simp add: sorted_map)
qed

lemma classifyNotes_spaced:
  assumes "spacedApart notes"
  shows "classifyNotes notes = (notes, [])"
proof -
  have "map (\<lambda>n. startTime (snd n)) (noteObjects notes) =
          map startTime (map snd (noteObjects notes))"
    by (simp add: comp_def)
  then have "map (\<lambda>n. startTime (snd n)) (noteObjects notes) = map startTime notes"
    by (simp only: map_snd_noteObjects)
  then have "sorted (map (\<lambda>n. startTime (snd n)) (noteObjects notes))"
    using spacedApart_sorted [OF assms] by simp
  then have s: "sortByStart (noteObjects notes) = noteObjects notes"
    unfolding sortByStart_def by (rule sort_key_id_if_sorted)
  have "successively (\<lambda>a b. timeThreshold \<le> startTime b - startTime a)
          (map snd (noteObjects notes))"
    using assms by (simp add: spacedApart_def map_snd_noteObjects)
  then have "successively (\<lambda>a b. timeThreshold \<le> startTime (snd b) - startTime (snd a))
          (noteObjects notes)"
    by (simp add: successively_map)
  then have g: "groupsOf notes = map (\<lambda>n. [n]) (noteObjects notes)"
    unfolding groupsOf_def s by (rule simultaneityGroups_spaced)
  have "map topNoteOf (map (\<lambda>n. [n]) objs) = objs" for objs
    by (induction objs) (simp_all add: topNoteOf_single)
  moreover have "concat (map notTopNote (map (\<lambda>n. [n]) objs)) = []" for objs
    by (induction objs) (simp_all add: notTopNote_single)
  ultimately show ?thesis
    by (simp add: classifyNotes_def classifyObjects_groups g map_snd_noteObjects)
qed

text \<open>
  C4, as the claim states it: groups are measured from their first note, two consecutive
  notes at least 20 ms apart never share a group, and a chain of notes each 15 ms apart is
  one group.  The last part fails: of three notes at 0, 15 and 30 ms the third is 30 ms
  after the first, so it opens a second group and is a melody note.
\<close>

theorem chain_is_split:
  "map startTime chainNotes = [0, 15 / 1000, 30 / 1000]
   \<and> groupsOf chainNotes =
       [[(0, sampleNote 60 0 1), (1, sampleNote 62 (15 / 1000) 1)], [(2, sampleNote 64 (30 / 1000) 1)]]
   \<and> length (groupsOf chainNotes) \<noteq> 1
   \<and> classifyNotes chainNotes =
       ([sampleNote 62 (15 / 1000) 1, sampleNote 64 (30 / 1000) 1], [sampleNote 60 0 1])"
proof (intro conjI)
  show "map startTime chainNotes = [0, 15 / 1000, 30 / 1000]"
    by (simp add: chainNotes_def sampleNote_def)
  show g: "groupsOf chainNotes =
       [[(0, sampleNote 60 0 1), (1, sampleNote 62 (15 / 1000) 1)], [(2, sampleNote 64 (30 / 1000) 1)]]"
    by code_simp
  show "length (groupsOf chainNotes) \<noteq> 1" unfolding g by simp
  show "classifyNotes chainNotes =
       ([sampleNote 62 (15 / 1000) 1, sampleNote 64 (30 / 1000) 1], [sampleNote 60 0 1])"
    by code_simp
qed

text \<open>
  C4, amended.  Every member of a group starts less than 20 ms after the group's first
  note, and not before it, so any two members of a group are less than 20 ms apart and a
  chain of notes each 15 ms apart is split wherever it reaches 20 ms from the first note of
  the running group.  The groups are consecutive runs of the sorted notes, and each group
  is as long as it can be: the first note of the next group starts at least 20 ms after
  the first note of the group before.  A sorted input whose consecutive notes are at least
  20 ms apart is returned as the melody, in its order, with an empty harmony.
\<close>

theorem groups_measured_from_first:
  "(\<forall>g \<in> set (groupsOf notes). g \<noteq> []
       \<and> (\<forall>n \<in> set g. 0 \<le> startTime (snd n) - startTime (snd (hd g))
                      \<and> startTime (snd n) - startTime (snd (hd g)) < timeThreshold))
   \<and> (\<forall>g \<in> set (groupsOf notes). \<forall>n \<in> set g. \<forall>m \<in> set g.
         \<bar>startTime (snd n) - startTime (snd m)\<bar> < timeThreshold)
   \<and> concat (groupsOf notes) = sortByStart (noteObjects notes)
   \<and> successively (\<lambda>g g'. timeThreshold \<le> startTime (snd (hd g')) - startTime (snd (hd g)))
        (groupsOf notes)
   \<and> (spacedApart notes \<longrightarrow> classifyNotes notes = (notes, []))"
proof -
  have w: "0 \<le> startTime (snd n) - startTime (snd (hd g))
         \<and> startTime (snd n) - startTime (snd (hd g)) < timeThreshold"
    if "g \<in> set (groupsOf notes)" "n \<in> set g" for g n
    using that unfolding groupsOf_def
    by (rule simultaneityGroups_within [OF sorted_sortByStart])
  have a: "\<forall>g \<in> set (groupsOf notes). g \<noteq> []
       \<and> (\<forall>n \<in> set g. 0 \<le> startTime (snd n) - startTime (snd (hd g))
                      \<and> startTime (snd n) - startTime (snd (hd g)) < timeThreshold)"
    by (intro ballI conjI groupsOf_nonempty w [THEN conjunct1] w [THEN conjunct2])
  have b: "\<forall>g \<in> set (groupsOf notes). \<forall>n \<in> set g. \<forall>m \<in> set g.
         \<bar>startTime (snd n) - startTime (snd m)\<bar> < timeThreshold"
  proof (intro ballI)
    fix g n m assume g: "g \<in> set (groupsOf notes)" and n: "n \<in> set g" and m: "m \<in> set g"
    from w [OF g n] w [OF g m] show "\<bar>startTime (snd n) - startTime (snd m)\<bar> < timeThreshold"
      by linarith
  qed
  have c: "concat (groupsOf notes) = sortByStart (noteObjects notes)"
    by (simp add: groupsOf_def concat_simultaneityGroups)
  have "successively (\<lambda>g g'. \<not> simultaneous (hd g) (hd g')) (groupsOf notes)"
    unfolding groupsOf_def by (rule simultaneityGroups_maximal)
  then have d: "successively
      (\<lambda>g g'. timeThreshold \<le> startTime (snd (hd g')) - startTime (snd (hd g))) (groupsOf notes)"
    by (rule successively_mono) (simp_all add: simultaneous_def)
  have e: "spacedApart notes \<longrightarrow> classifyNotes notes = (notes, [])"
    by (rule impI) (rule classifyNotes_spaced)
  show ?thesis by (intro conjI a b c d e)
qed

theorem groups_measured_from_first_witness:
  "spacedApart [sampleNote 60 0 1, sampleNote 64 (20 / 1000) 1, sampleNote 62 (50 / 1000) 1]
   \<and> classifyNotes [sampleNote 60 0 1, sampleNote 64 (20 / 1000) 1, sampleNote 62 (50 / 1000) 1] =
       ([sampleNote 60 0 1, sampleNote 64 (20 / 1000) 1, sampleNote 62 (50 / 1000) 1], [])
   \<and> groupsOf chainNotes \<noteq> []"
proof -
  have s: "spacedApart [sampleNote 60 0 1, sampleNote 64 (20 / 1000) 1, sampleNote 62 (50 / 1000) 1]"
    by (simp add: spacedApart_def sampleNote_def timeThreshold_def)
  have g: "groupsOf chainNotes \<noteq> []" by code_simp
  from groups_measured_from_first
    [of "[sampleNote 60 0 1, sampleNote 64 (20 / 1000) 1, sampleNote 62 (50 / 1000) 1]",
     THEN conjunct2, THEN conjunct2, THEN conjunct2, THEN conjunct2, rule_format, OF s]
  show ?thesis by (intro conjI s g)
qed

section \<open>Map position\<close>

text \<open>
  C1.  The claim is that the position derived from an analysis has
  \<open>x = melodicComplexity / 3 + melodicRichness * 2 / 3\<close> clamped to \<open>[0, 100]\<close> and
  \<open>y = harmonicRichness\<close>.  The corpus script clamps \<open>x\<close>; \<open>analyzeAndCreateSong\<close> and
  \<open>generateVariation\<close> build the same position and do not.  At an analysis with both
  melodic scores at 150 the application stores \<open>x = 150\<close> where the script stores 100.
\<close>

theorem appMapPosition_unclamped:
  "appMapPosition (sampleAnalysis 150 150 75) = \<lparr> xCoord = 150, yCoord = 75 \<rparr>
   \<and> preprocessMapPosition (sampleAnalysis 150 150 75) = \<lparr> xCoord = 100, yCoord = 75 \<rparr>
   \<and> appMapPosition (sampleAnalysis 60 30 75) = \<lparr> xCoord = 40, yCoord = 75 \<rparr>"
  by (simp add: appMapPosition_def preprocessMapPosition_def sampleAnalysis_def)

section \<open>Quantizer\<close>

lemma secondsPerGridUnit_pos: "0 < bpm \<Longrightarrow> 0 < secondsPerGridUnit bpm quantizeGrid"
  by (simp add: secondsPerGridUnit_def Let_def)

lemma secondsPerGridUnit_subdivisions:
  "secondsPerGridUnit bpm quantizeGrid = (60 / bpm) / (case quantizeGrid of Q16 \<Rightarrow> 4 | Q8T \<Rightarrow> 3)"
  by (cases quantizeGrid) (simp_all add: secondsPerGridUnit_def Let_def)

lemma quantizeNote_idempotent:
  assumes "0 < g"
  shows "quantizeNote g (quantizeNote g n) = quantizeNote g n"
proof -
  have s: "Math_round (Math_round (startTime n / g) * g / g) = Math_round (startTime n / g)"
    using assms by (simp add: Math_round_def)
  define k where "k = \<lfloor>duration n / g + 1 / 2\<rfloor>"
  have d: "max g (Math_round (max g (of_int k * g) / g) * g) = max g (of_int k * g)"
  proof (cases "1 \<le> k")
    case True
    then have "g \<le> of_int k * g" using assms by simp
    then have "max g (of_int k * g) = of_int k * g" by simp
    then show ?thesis using assms by (simp add: Math_round_def)
  next
    case False
    then have "k \<le> 0" by simp
    then have "of_int k * g \<le> 0" using assms by (simp add: mult_le_0_iff)
    then have m: "max g (of_int k * g) = g" using assms by simp
    have "Math_round (g / g) = 1" using assms by (simp add: Math_round_def)
    then show ?thesis using m by simp
  qed
  show ?thesis using s d by (simp add: quantizeNote_def k_def Math_round_def)
qed

text \<open>
  C5.  For a tempo \<open>bpm > 0\<close> and either grid, \<open>quantizeNotes\<close> maps the notes one by one
  and in order.  With \<open>gridUnit = (60 / bpm) / subdivisions\<close>, 4 subdivisions for \<open>'16'\<close> and
  3 for \<open>'8T'\<close>, the note at index \<open>i\<close> gets the start time
  \<open>round (startTime / gridUnit) * gridUnit\<close> and the duration
  \<open>max gridUnit (round (duration / gridUnit) * gridUnit)\<close>, which is at least one grid unit,
  and keeps its pitch and velocity.  At 120 bpm on the sixteenth grid the unit is 0.125 s
  and a note starting at 0.09 s that lasts 0.03 s becomes one starting at 0.125 s that
  lasts 0.125 s.
\<close>

theorem quantizeNotes_grid:
  assumes "0 < bpm"
  shows "length (quantizeNotes notes bpm quantizeGrid) = length notes
    \<and> (\<forall>i < length notes.
          startTime (quantizeNotes notes bpm quantizeGrid ! i) =
            Math_round (startTime (notes ! i) / ((60 / bpm) / (case quantizeGrid of Q16 \<Rightarrow> 4 | Q8T \<Rightarrow> 3)))
              * ((60 / bpm) / (case quantizeGrid of Q16 \<Rightarrow> 4 | Q8T \<Rightarrow> 3))
        \<and> duration (quantizeNotes notes bpm quantizeGrid ! i) =
            max ((60 / bpm) / (case quantizeGrid of Q16 \<Rightarrow> 4 | Q8T \<Rightarrow> 3))
              (Math_round (duration (notes ! i) / ((60 / bpm) / (case quantizeGrid of Q16 \<Rightarrow> 4 | Q8T \<Rightarrow> 3)))
                * ((60 / bpm) / (case quantizeGrid of Q16 \<Rightarrow> 4 | Q8T \<Rightarrow> 3)))
        \<and> 0 < duration (quantizeNotes notes bpm quantizeGrid ! i)
        \<and> pitch (quantizeNotes notes bpm quantizeGrid ! i) = pitch (notes ! i)
        \<and> velocity (quantizeNotes notes bpm quantizeGrid ! i) = velocity (notes ! i))
    \<and> secondsPerGridUnit 120 Q16 = 125 / 1000
    \<and> quantizeNotes [sampleNote 60 (9 / 100) (3 / 100)] 120 Q16 =
          [sampleNote 60 (125 / 1000) (125 / 1000)]"
proof (intro conjI allI impI)
  show "length (quantizeNotes notes bpm quantizeGrid) = length notes"
    by (simp add: quantizeNotes_def)
next
  fix i assume i: "i < length notes"
  let ?g = "(60 / bpm) / (case quantizeGrid of Q16 \<Rightarrow> 4 | Q8T \<Rightarrow> 3)"
  have g: "secondsPerGridUnit bpm quantizeGrid = ?g"
    by (rule secondsPerGridUnit_subdivisions)
  have n: "quantizeNotes notes bpm quantizeGrid ! i = quantizeNote ?g (notes ! i)"
    using i by (simp add: quantizeNotes_def g)
  have pos: "0 < ?g"
    using secondsPerGridUnit_pos [OF assms, of quantizeGrid] g by simp
  show "startTime (quantizeNotes notes bpm quantizeGrid ! i) =
          Math_round (startTime (notes ! i) / ?g) * ?g"
    unfolding n by (simp add: quantizeNote_def)
  show "duration (quantizeNotes notes bpm quantizeGrid ! i) =
          max ?g (Math_round (duration (notes ! i) / ?g) * ?g)"
    unfolding n by (simp add: quantizeNote_def)
  show "0 < duration (quantizeNotes notes bpm quantizeGrid ! i)"
    unfolding n using pos by (simp add: quantizeNote_def less_max_iff_disj)
  show "pitch (quantizeNotes notes bpm quantizeGrid ! i) = pitch (notes ! i)"
    unfolding n by (simp add: quantizeNote_def)
  show "velocity (quantizeNotes notes bpm quantizeGrid ! i) = velocity (notes ! i)"
    unfolding n by (simp add: quantizeNote_def)
next
  show "secondsPerGridUnit 120 Q16 = 125 / 1000"
    by (simp add: secondsPerGridUnit_def)
next
  show "quantizeNotes [sampleNote 60 (9 / 100) (3 / 100)] 120 Q16 =
          [sampleNote 60 (125 / 1000) (125 / 1000)]"
    by (simp add: quantizeNotes_def quantizeNote_def secondsPerGridUnit_def Math_round_def
          sampleNote_def)
qed

theorem quantizeNotes_grid_witness:
  "(0::real) < 90
   \<and> startTime (quantizeNotes [sampleNote 72 1 (1 / 10), sampleNote 60 (1 / 2) (1 / 2)] 90 Q8T ! 1)
       = 4 / 9
   \<and> duration (quantizeNotes [sampleNote 72 1 (1 / 10), sampleNote 60 (1 / 2) (1 / 2)] 90 Q8T ! 0)
       = 2 / 9"
  using quantizeNotes_grid
    [of 90 "[sampleNote 72 1 (1 / 10), sampleNote 60 (1 / 2) (1 / 2)]" Q8T]
  by (simp add: sampleNote_def Math_round_def)

text \<open>
  C6.  Quantizing twice with the same tempo \<open>bpm > 0\<close> and the same grid gives what
  quantizing once gives.
\<close>

theorem quantizeNotes_idempotent:
  assumes "0 < bpm"
  shows "quantizeNotes (quantizeNotes notes bpm quantizeGrid) bpm quantizeGrid =
           quantizeNotes notes bpm quantizeGrid"
  using secondsPerGridUnit_pos [OF assms, of quantizeGrid]
  by (simp add: quantizeNotes_def quantizeNote_idempotent)

theorem quantizeNotes_idempotent_witness:
  "(0::real) < 120
   \<and> quantizeNotes (quantizeNotes [sampleNote 60 (9 / 100) (3 / 100)] 120 Q16) 120 Q16 =
       [sampleNote 60 (125 / 1000) (125 / 1000)]"
  using quantizeNotes_idempotent [of 120 "[sampleNote 60 (9 / 100) (3 / 100)]" Q16]
  by (simp add: quantizeNotes_def quantizeNote_def secondsPerGridUnit_def Math_round_def
        sampleNote_def)

section \<open>Viewport\<close>

lemma zoomAxis_width:
  assumes "0 \<le> factor" "fst d \<le> snd d"
  shows "width (zoomAxis factor d) = min 100 (factor * width d)"
proof -
  have "0 \<le> (snd d - fst d) * factor" using assms by simp
  then show ?thesis
    by (auto simp add: zoomAxis_def width_def clamp_def Let_def min_def max_def
          mult.commute field_simps)
qed

lemma zoomAxis_valid:
  assumes "0 \<le> factor" "fst d \<le> snd d"
  shows "validAxis (zoomAxis factor d)"
proof -
  have "0 \<le> (snd d - fst d) * factor" using assms by simp
  then show ?thesis
    by (auto simp add: zoomAxis_def validAxis_def clamp_def Let_def min_def max_def field_simps)
qed

lemma zoomAxis_centred:
  assumes "0 \<le> factor" "fst d \<le> snd d"
    and "0 \<le> (fst d + snd d) / 2 - (snd d - fst d) * factor / 2"
    and "(fst d + snd d) / 2 + (snd d - fst d) * factor / 2 \<le> 100"
  shows "zoomAxis factor d =
           ((fst d + snd d) / 2 - (snd d - fst d) * factor / 2,
            (fst d + snd d) / 2 + (snd d - fst d) * factor / 2)"
proof -
  have "0 \<le> (snd d - fst d) * factor" using assms(1,2) by simp
  then show ?thesis using assms(3,4)
    by (auto simp add: zoomAxis_def clamp_def Let_def min_def max_def)
qed

text \<open>
  C7, as the claim states it: zooming scales the width of both domain ranges by exactly
  the factor, and a window that leaves \<open>[0, 100]\<close> is moved back, never resized.  Zooming
  out of the full window \<open>[0, 100]\<close> by 1.25 refutes it: the scaled width is 125 and the
  result is \<open>[0, 100]\<close> again, of width 100, because \<open>handleZoom\<close> ends by clamping both
  bounds.
\<close>

theorem handleZoom_resizes:
  "domX (handleZoom (5 / 4) handleResetZoom) = (0, 100)
   \<and> width (domX (handleZoom (5 / 4) handleResetZoom)) \<noteq> 5 / 4 * width (domX handleResetZoom)"
  by (simp add: handleZoom_def handleResetZoom_def zoomAxis_def width_def clamp_def)

text \<open>
  C7, amended.  For a domain with \<open>min \<le> max\<close> on both axes and a factor \<open>> 0\<close>, the width
  after \<open>handleZoom\<close> is the smaller of 100 and the factor times the width before, on both
  axes, and both ranges lie in \<open>[0, 100]\<close>: the factor is honoured exactly, by moving the
  window only, whenever the scaled width is at most 100.  An axis whose scaled window
  about the centre already lies in \<open>[0, 100]\<close> gets exactly that window.
\<close>

theorem handleZoom_width:
  assumes "0 < factor"
    and "fst (domX prev) \<le> snd (domX prev)" and "fst (domY prev) \<le> snd (domY prev)"
  shows "width (domX (handleZoom factor prev)) = min 100 (factor * width (domX prev))
    \<and> width (domY (handleZoom factor prev)) = min 100 (factor * width (domY prev))
    \<and> validAxis (domX (handleZoom factor prev))
    \<and> validAxis (domY (handleZoom factor prev))
    \<and> (0 \<le> (fst (domX prev) + snd (domX prev)) / 2 - width (domX prev) * factor / 2
         \<and> (fst (domX prev) + snd (domX prev)) / 2 + width (domX prev) * factor / 2 \<le> 100
       \<longrightarrow> domX (handleZoom factor prev) =
             ((fst (domX prev) + snd (domX prev)) / 2 - width (domX prev) * factor / 2,
              (fst (domX prev) + snd (domX prev)) / 2 + width (domX prev) * factor / 2))
    \<and> (0 \<le> (fst (domY prev) + snd (domY prev)) / 2 - width (domY prev) * factor / 2
         \<and> (fst (domY prev) + snd (domY prev)) / 2 + width (domY prev) * factor / 2 \<le> 100
       \<longrightarrow> domY (handleZoom factor prev) =
             ((fst (domY prev) + snd (domY prev)) / 2 - width (domY prev) * factor / 2,
              (fst (domY prev) + snd (domY prev)) / 2 + width (domY prev) * factor / 2))"
proof -
  have f: "0 \<le> factor" using assms(1) by simp
  show ?thesis
    using zoomAxis_width [OF f assms(2)] zoomAxis_width [OF f assms(3)]
      zoomAxis_valid [OF f assms(2)] zoomAxis_valid [OF f assms(3)]
      zoomAxis_centred [OF f assms(2)] zoomAxis_centred [OF f assms(3)]
    by (simp add: handleZoom_def width_def)
qed

theorem handleZoom_width_witness:
  "(0::real) < 4 / 5
   \<and> fst (domX handleResetZoom) \<le> snd (domX handleResetZoom)
   \<and> fst (domY handleResetZoom) \<le> snd (domY handleResetZoom)
   \<and> domX (handleZoom (4 / 5) handleResetZoom) = (10, 90)
   \<and> width (domX (handleZoom (4 / 5) handleResetZoom)) = 80
   \<and> width (domY (handleZoom (5 / 4) (handleZoom (4 / 5) handleResetZoom))) = 100"
  using handleZoom_width [of "4 / 5" handleResetZoom]
    handleZoom_width [of "5 / 4" "handleZoom (4 / 5) handleResetZoom"]
  by (simp add: handleResetZoom_def width_def validAxis_def)

text \<open>
  C8.  A pan that started on a domain with \<open>0 \<le> min \<le> max \<le> 100\<close> on both axes keeps
  the width of both ranges at every mouse move and keeps both ranges in \<open>[0, 100]\<close>; the new
  minimum is the old one shifted by the pointer's way in data units, clamped to
  \<open>[0, 100 - range]\<close> (the vertical axis is shifted the other way round, the screen's \<open>y\<close>
  growing downwards).  From the range \<open>[0, 20]\<close> a pan to the left, by any positive
  amount on a container of positive width, leaves \<open>[0, 20]\<close>.
\<close>

theorem handlePanMove_keeps_width:
  assumes "validAxis (domainX start)" and "validAxis (domainY start)"
  shows "width (domX (handlePanMove True (Some start) (Some c) clientX clientY d)) =
           width (domainX start)
    \<and> width (domY (handlePanMove True (Some start) (Some c) clientX clientY d)) =
           width (domainY start)
    \<and> validAxis (domX (handlePanMove True (Some start) (Some c) clientX clientY d))
    \<and> validAxis (domY (handlePanMove True (Some start) (Some c) clientX clientY d))
    \<and> fst (domX (handlePanMove True (Some start) (Some c) clientX clientY d)) =
         clamp (fst (domainX start) - (clientX - panX start) * (width (domainX start) / clientWidth c))
           0 (100 - width (domainX start))
    \<and> fst (domY (handlePanMove True (Some start) (Some c) clientX clientY d)) =
         clamp (fst (domainY start) + (clientY - panY start) * (width (domainY start) / clientHeight c))
           0 (100 - width (domainY start))
    \<and> (domainX start = (0, 20) \<and> panX start < clientX \<and> 0 < clientWidth c
       \<longrightarrow> domX (handlePanMove True (Some start) (Some c) clientX clientY d) = (0, 20))"
proof -
  have w: "width (domX (handlePanMove True (Some start) (Some c) clientX clientY d)) =
           width (domainX start)
    \<and> width (domY (handlePanMove True (Some start) (Some c) clientX clientY d)) =
           width (domainY start)"
    by (simp add: handlePanMove_def width_def Let_def)
  have v: "validAxis (domX (handlePanMove True (Some start) (Some c) clientX clientY d))
    \<and> validAxis (domY (handlePanMove True (Some start) (Some c) clientX clientY d))"
    using assms
    by (auto simp add: handlePanMove_def validAxis_def clamp_def Let_def min_def max_def)
  have m: "fst (domX (handlePanMove True (Some start) (Some c) clientX clientY d)) =
         clamp (fst (domainX start) - (clientX - panX start) * (width (domainX start) / clientWidth c))
           0 (100 - width (domainX start))
    \<and> fst (domY (handlePanMove True (Some start) (Some c) clientX clientY d)) =
         clamp (fst (domainY start) + (clientY - panY start) * (width (domainY start) / clientHeight c))
           0 (100 - width (domainY start))"
    by (simp add: handlePanMove_def width_def Let_def)
  have l: "domX (handlePanMove True (Some start) (Some c) clientX clientY d) = (0, 20)"
    if "domainX start = (0, 20)" "panX start < clientX" "0 < clientWidth c"
  proof -
    have "0 < (clientX - panX start) * (20 / clientWidth c)" using that by simp
    then have "clamp (0 - (clientX - panX start) * (20 / clientWidth c)) 0 80 = 0"
      by (simp add: clamp_def)
    then show ?thesis using that(1) by (simp add: handlePanMove_def Let_def)
  qed
  from w v m l show ?thesis by blast
qed

theorem handlePanMove_keeps_width_witness:
  "validAxis (domainX samplePanStart) \<and> validAxis (domainY samplePanStart)
   \<and> handlePanMove True (Some samplePanStart) (Some sampleContainer) 160 40 handleResetZoom =
       \<lparr> domX = (0, 20), domY = (35, 55) \<rparr>"
  using handlePanMove_keeps_width
    [of samplePanStart sampleContainer 160 40 handleResetZoom]
  by (simp add: samplePanStart_def sampleContainer_def validAxis_def handlePanMove_def
        clamp_def)

section \<open>Dragging\<close>

lemma sampleEnv_props:
  "activeUserMelodyPosition sampleEnv = Some \<lparr> xCoord = 40, yCoord = 120 \<rparr>"
  "isDraggable sampleEnv"
  "chartContainer sampleEnv = Some sampleContainer"
  "domain sampleEnv = handleResetZoom"
  by (simp_all add: sampleEnv_def appEnv_def userMelodyForMap_def sampleSong_def
        appMapPosition_def sampleAnalysis_def)

lemma dragPosition_sample:
  "dragPosition handleResetZoom sampleContainer 120 170 = \<lparr> liveX = Num 50, liveY = Num 25 \<rparr>"
  "dragPosition handleResetZoom sampleContainer 500 (- 30) = \<lparr> liveX = Num 100, liveY = Num 100 \<rparr>"
  by (simp_all add: dragPosition_def scaleToDomain_def handleResetZoom_def sampleContainer_def
        clamp_def)

lemma scaleToDomain_inSquare:
  "extent \<noteq> 0 \<Longrightarrow> \<exists>a. scaleToDomain offset extent lo hi = Num a \<and> 0 \<le> a \<and> a \<le> 100"
  by (simp add: scaleToDomain_def clamp_def)

lemma dragPosition_inSquare:
  assumes "rectWidth rect \<noteq> 40" and "rectHeight rect \<noteq> 40"
  shows "inSquare (dragPosition viewport rect clientX clientY)"
proof -
  have w: "rectWidth rect - 20 - 20 \<noteq> 0" and h: "rectHeight rect - 20 - 20 \<noteq> 0"
    using assms by simp_all
  have "\<exists>a. liveX (dragPosition viewport rect clientX clientY) = Num a \<and> 0 \<le> a \<and> a \<le> 100"
    using scaleToDomain_inSquare
      [OF w, of "clientX - (rectLeft rect + 20)" "fst (domX viewport)" "snd (domX viewport)"]
    by (simp add: dragPosition_def Let_def)
  then obtain a where a: "liveX (dragPosition viewport rect clientX clientY) = Num a"
    "0 \<le> a" "a \<le> 100"
    by blast
  have "\<exists>b. liveY (dragPosition viewport rect clientX clientY) = Num b \<and> 0 \<le> b \<and> b \<le> 100"
    using scaleToDomain_inSquare
      [OF h, of "rectHeight rect - 20 - 20 - (clientY - (rectTop rect + 20))"
         "fst (domY viewport)" "snd (domY viewport)"]
    by (simp add: dragPosition_def Let_def)
  then obtain b where b: "liveY (dragPosition viewport rect clientX clientY) = Num b"
    "0 \<le> b" "b \<le> 100"
    by blast
  show ?thesis by (simp add: inSquare_def a b)
qed

lemma dragPosition_empty_plot:
  \<comment> \<open>A container of 40 by 40 pixels leaves a plot area of 0 by 0.\<close>
  "dragPosition handleResetZoom (sampleContainer\<lparr> rectWidth := 40, rectHeight := 40 \<rparr>) 20 20 =
     \<lparr> liveX = NaN, liveY = NaN \<rparr>"
  "dragPosition handleResetZoom (sampleContainer\<lparr> rectWidth := 40, rectHeight := 40 \<rparr>) 30 30 =
     \<lparr> liveX = Num 100, liveY = Num 0 \<rparr>"
  by (simp_all add: dragPosition_def scaleToDomain_def handleResetZoom_def sampleContainer_def)

lemma mouseUp_listener_once:
  \<comment> \<open>A second mouse-up before the next render finds no listener.\<close>
  "emitted initialDragState
     [(sampleEnv, MouseDownOnUserMelody), (sampleEnv, Render False),
      (sampleEnv, MouseMove 120 170), (sampleEnv, Render False), (sampleEnv, MouseUp),
      (sampleEnv, MouseUp)] =
     [\<lparr> liveX = Num 50, liveY = Num 25 \<rparr>]"
  by (simp add: emitted_def step_def initialDragState_def sampleEnv_props dragPosition_sample
        handleMouseDownOnUserMelody_def handleMouseMove_def handleMouseUp_def render_def
        livePosition_def)

text \<open>
  C9.  The claim: a mouse-down on the user's point and a mouse-up with no move in between
  never call \<open>onUserMelodyMove\<close>, and with a move in between the mouse-up calls it with the
  final live position.  The first half holds on the sample: down and up, with or without
  a render in between, pass nothing on, and the click that follows selects the point.
  The second half holds when the component has
  rendered after the last move.  When the mouse-up comes before that render,
  \<open>handleMouseUp\<close> still sees the \<open>transientPosition\<close> of the render before, while
  \<open>didDragRef\<close> already says that the point has moved: after a move to (50, 25) the
  position passed on is (40, 120), where the point was when the drag began.
\<close>

theorem mouseUp_passes_on_rendered_position:
  "emitted initialDragState
     [(sampleEnv, MouseDownOnUserMelody), (sampleEnv, Render False),
      (sampleEnv, MouseMove 120 170), (sampleEnv, MouseUp)] =
     [\<lparr> liveX = Num 40, liveY = Num 120 \<rparr>]
   \<and> pendingTransientPosition (fst (run initialDragState
        [(sampleEnv, MouseDownOnUserMelody), (sampleEnv, Render False),
         (sampleEnv, MouseMove 120 170)])) =
       Some \<lparr> liveX = Num 50, liveY = Num 25 \<rparr>
   \<and> emitted initialDragState
        [(sampleEnv, MouseDownOnUserMelody), (sampleEnv, Render False),
         (sampleEnv, MouseMove 120 170), (sampleEnv, Render False), (sampleEnv, MouseUp)] =
       [\<lparr> liveX = Num 50, liveY = Num 25 \<rparr>]
   \<and> emitted initialDragState
        [(sampleEnv, MouseDownOnUserMelody), (sampleEnv, Render False), (sampleEnv, MouseUp)] = []
   \<and> emitted initialDragState [(sampleEnv, MouseDownOnUserMelody), (sampleEnv, MouseUp)] = []
   \<and> handleCellClick (fst (run initialDragState
        [(sampleEnv, MouseDownOnUserMelody), (sampleEnv, Render False), (sampleEnv, MouseUp)]))
        ''user-melody'' = [''user-melody'']"
  by (simp add: emitted_def step_def initialDragState_def sampleEnv_props dragPosition_sample
        handleMouseDownOnUserMelody_def handleMouseMove_def handleMouseUp_def render_def
        livePosition_def handleCellClick_def)

text \<open>
  C10.  The claim: every position passed to \<open>onUserMelodyMove\<close> has both coordinates in
  \<open>[0, 100]\<close>, also when the stored position of the point has not.  A move stores a clamped
  position (\<open>dragPosition_inSquare\<close>, for a plot area that is not empty), and a mouse-up
  after the render that follows the move passes it on.  A mouse-up before that render
  passes on the position taken over at mouse-down, which is the stored one and is not
  clamped: the point stored at (40, 120) is dragged to the corner (100, 100) of the
  square, and (40, 120) is what \<open>onUserMelodyMove\<close> gets.
\<close>

theorem mouseUp_passes_on_stored_position:
  "emitted initialDragState
     [(sampleEnv, MouseDownOnUserMelody), (sampleEnv, Render False),
      (sampleEnv, MouseMove 500 (- 30)), (sampleEnv, MouseUp)] =
     [livePosition \<lparr> xCoord = 40, yCoord = 120 \<rparr>]
   \<and> \<not> inSquare (livePosition \<lparr> xCoord = 40, yCoord = 120 \<rparr>)
   \<and> emitted initialDragState
        [(sampleEnv, MouseDownOnUserMelody), (sampleEnv, Render False),
         (sampleEnv, MouseMove 500 (- 30)), (sampleEnv, Render False), (sampleEnv, MouseUp)] =
       [\<lparr> liveX = Num 100, liveY = Num 100 \<rparr>]
   \<and> inSquare \<lparr> liveX = Num 100, liveY = Num 100 \<rparr>"
  by (simp add: emitted_def step_def initialDragState_def sampleEnv_props dragPosition_sample
        handleMouseDownOnUserMelody_def handleMouseMove_def handleMouseUp_def render_def
        livePosition_def inSquare_def)

end
